theory Spec2Isabelle
  imports Main "HOL-Library.AList" "HOL-Library.Multiset" "HOL-Library.Sublist"
begin

section \<open>Route store of the admin console (ui/src/store/modules/route/index.ts)\<close>

text \<open>
  The store is a closure over a handful of mutable cells (\<open>constantRoutes\<close>,
  \<open>authRoutes\<close>, \<open>removeRouteFns\<close>, \<open>menus\<close>, \<open>cacheRoutes\<close>, \<open>allCacheRoutes\<close>, the two
  initialisation flags and the home key) and over its collaborators (the live router,
  the app store, the auth store, the tab store).  Each store function is embedded as a
  function from the store state to the new store state.
\<close>

subsection \<open>Routes\<close>

text \<open>
  \<open>ElegantConstRoute\<close>: the fields this store and its helpers read.  \<open>meta_order\<close> is
  \<open>meta.order\<close>, \<open>meta_roles\<close> is \<open>meta.roles\<close>.
\<close>

datatype route = Route
  (name: string)
  (path: string)
  (meta_order: int)
  (meta_roles: "string list")
  (redirect: "string option")
  (children: "route list")

type_synonym RouteKey = string

text \<open>
  \<open>RouteRecordRaw\<close> of the router library, as produced by \<open>getAuthVueRoutes\<close>.
\<close>

datatype vueRoute = VueRoute
  (vueName: string)
  (vuePath: string)
  (vueRedirect: "string option")
  (vueChildren: "vueRoute list")

subsection \<open>The JavaScript \<open>Map\<close> used for de-duplication\<close>

text \<open>
  \<open>new Map()\<close> keeps its keys in insertion order; \<open>set\<close> on a key that is already present
  replaces the value and leaves the key where it is.  That is \<open>AList.update\<close> on an
  association list; \<open>Array.from(map.values())\<close> is \<open>map snd\<close>.
\<close>

definition routesMap :: "route list \<Rightarrow> (string \<times> route) list" where
  "routesMap routes = foldl (\<lambda>m route. AList.update (name route) route m) [] routes"

definition mapValues :: "('k \<times> 'v) list \<Rightarrow> 'v list" where
  "mapValues m = map snd m"

subsection \<open>Sorting by order (shared.ts)\<close>

text \<open>
  Modelled from the spec: \<open>sortRoutesByOrder\<close> lives in \<open>./shared\<close>, which is not among the
  sources.  Section 4.2 of the specification: a stable sort ordered by each node's
  declared order value ascending, with the original relative order as tie-break, that
  recurses into children with the same rule.  \<open>sort_key\<close> is the stable insertion sort of
  the list library.
\<close>

fun sortRouteByOrder :: "route \<Rightarrow> route" where
  "sortRouteByOrder (Route n p ord rs rd cs) =
     Route n p ord rs rd (sort_key meta_order (map sortRouteByOrder cs))"

definition sortRoutesByOrder :: "route list \<Rightarrow> route list" where
  "sortRoutesByOrder routes = sort_key meta_order (map sortRouteByOrder routes)"



subsection \<open>Permission filter (shared.ts)\<close>

text \<open>
  Modelled from the spec: \<open>filterAuthRoutesByRoles\<close> lives in \<open>./shared\<close>, which is not among
  the sources.  Section 4.1 of the specification: a node is kept iff at least one of its
  declared required permissions is present in the authority, or it declares no
  requirement; children are visited only for kept nodes; a parent that had children and
  retains none of them is dropped.  The order of the nodes is preserved.
\<close>

fun filterAuthRouteByRoles :: "string list \<Rightarrow> route \<Rightarrow> route list" where
  "filterAuthRouteByRoles roles (Route n p ord rs rd cs) =
     (if rs = [] \<or> (\<exists>r \<in> set rs. r \<in> set roles)
      then (let kept = concat (map (filterAuthRouteByRoles roles) cs)
            in if cs \<noteq> [] \<and> kept = [] then [] else [Route n p ord rs rd kept])
      else [])"

definition filterAuthRoutesByRoles :: "route list \<Rightarrow> string list \<Rightarrow> route list" where
  "filterAuthRoutesByRoles routes roles = concat (map (filterAuthRouteByRoles roles) routes)"

subsection \<open>The live router\<close>

text \<open>
  Modelled from the spec: the router object comes from the routing library and from
  \<open>@/router\<close>, neither of which is among the sources.  Section 6 of the specification:
  \<open>register(node)\<close> returns a retraction handle, and retracting a handle whose entry is
  gone is a no-op.  A handle is the identity of one registration; the router numbers its
  registrations.  \<open>removeRoute\<close> retracts by route name.
\<close>

type_synonym handle = nat

record router =
  entries :: "(handle \<times> vueRoute) list"
  nextHandle :: handle

definition addRoute :: "vueRoute \<Rightarrow> router \<Rightarrow> handle \<times> router" where
  "addRoute route r =
     (nextHandle r,
      r\<lparr>entries := entries r @ [(nextHandle r, route)], nextHandle := Suc (nextHandle r)\<rparr>)"

definition removeFn :: "handle \<Rightarrow> router \<Rightarrow> router" where
  "removeFn h r = r\<lparr>entries := filter (\<lambda>e. fst e \<noteq> h) (entries r)\<rparr>"

definition removeRoute :: "string \<Rightarrow> router \<Rightarrow> router" where
  "removeRoute n r = r\<lparr>entries := filter (\<lambda>e. vueName (snd e) \<noteq> n) (entries r)\<rparr>"

definition liveRoutes :: "router \<Rightarrow> vueRoute list" where
  "liveRoutes r = map snd (entries r)"

subsection \<open>Collaborators and configuration\<close>

datatype authRouteMode = Static | Dynamic

text \<open>The flat result \<open>{ data, error }\<close> of \<open>fetchGetUserRoutes\<close>.\<close>

datatype userRoutes = FetchError | FetchData "route list" RouteKey

text \<open>
  What the store imports and does not define: the build-time configuration, the static
  route catalogue (\<open>createStaticRoutes\<close>), \<open>ROOT_ROUTE\<close>, the route transformers, the menu
  and cache-name projections, the auth store's \<open>isStaticSuper\<close> and the answer of the
  authorization service.  They are parameters of the model.
\<close>

record 'm deps =
  VITE_AUTH_ROUTE_MODE :: authRouteMode
  VITE_ROUTE_HOME :: RouteKey
  staticConstantRoutes :: "route list"
  staticAuthRoutes :: "route list"
  ROOT_ROUTE :: route
  getAuthVueRoutes :: "route list \<Rightarrow> vueRoute list"
  getRoutePath :: "RouteKey \<Rightarrow> string option"
  getGlobalMenusByAuthRoutes :: "route list \<Rightarrow> 'm list"
  getCacheRouteNames :: "vueRoute list \<Rightarrow> RouteKey list"
  isStaticSuper :: bool
  fetchGetUserRoutes :: userRoutes

subsection \<open>The store state\<close>

text \<open>
  The cells of the store, the live router, and what the other stores see of this one:
  \<open>reloadLog\<close> has one entry per call of \<open>appStore.reloadPage\<close>, holding the \<open>cacheRoutes\<close>
  list in force while the page reloads; \<open>authResetCalls\<close> counts the calls of
  \<open>authStore.resetStore\<close>; \<open>initHomeTabCalls\<close> counts the calls of \<open>tabStore.initHomeTab\<close>.
\<close>

record 'm state =
  isInitConstantRoute :: bool
  isInitAuthRoute :: bool
  routeHome :: RouteKey
  constantRoutes :: "route list"
  authRoutes :: "route list"
  removeRouteFns :: "handle list"
  menus :: "'m list"
  cacheRoutes :: "RouteKey list"
  allCacheRoutes :: "RouteKey list"
  router :: router
  reloadLog :: "RouteKey list list"
  authResetCalls :: nat
  initHomeTabCalls :: nat

datatype error = TypeError

definition setIsInitConstantRoute :: "bool \<Rightarrow> 'm state \<Rightarrow> 'm state" where
  "setIsInitConstantRoute b s = s\<lparr>isInitConstantRoute := b\<rparr>"

definition setIsInitAuthRoute :: "bool \<Rightarrow> 'm state \<Rightarrow> 'm state" where
  "setIsInitAuthRoute b s = s\<lparr>isInitAuthRoute := b\<rparr>"

definition setRouteHome :: "RouteKey \<Rightarrow> 'm state \<Rightarrow> 'm state" where
  "setRouteHome routeKey s = s\<lparr>routeHome := routeKey\<rparr>"

definition addConstantRoutes :: "route list \<Rightarrow> 'm state \<Rightarrow> 'm state" where
  "addConstantRoutes routes s = s\<lparr>constantRoutes := mapValues (routesMap routes)\<rparr>"

definition addAuthRoutes :: "route list \<Rightarrow> 'm state \<Rightarrow> 'm state" where
  "addAuthRoutes routes s = s\<lparr>authRoutes := mapValues (routesMap routes)\<rparr>"

definition getGlobalMenus :: "'m deps \<Rightarrow> route list \<Rightarrow> 'm state \<Rightarrow> 'm state" where
  "getGlobalMenus d routes s = s\<lparr>menus := getGlobalMenusByAuthRoutes d routes\<rparr>"

subsection \<open>Cache routes\<close>

definition getCacheRoutes :: "'m deps \<Rightarrow> vueRoute list \<Rightarrow> 'm state \<Rightarrow> 'm state" where
  "getCacheRoutes d routes s =
     (let alls = getCacheRouteNames d routes
      in s\<lparr>cacheRoutes := alls, allCacheRoutes := alls\<rparr>)"

definition addCacheRoutes :: "RouteKey \<Rightarrow> 'm state \<Rightarrow> 'm state" where
  "addCacheRoutes routeKey s =
     (if routeKey \<in> set (cacheRoutes s) then s
      else s\<lparr>cacheRoutes := cacheRoutes s @ [routeKey]\<rparr>)"

text \<open>\<open>findIndex\<close> followed by \<open>splice(index, 1)\<close> removes the first occurrence.\<close>

definition removeCacheRoutes :: "RouteKey \<Rightarrow> 'm state \<Rightarrow> 'm state" where
  "removeCacheRoutes routeKey s =
     (if routeKey \<notin> set (cacheRoutes s) then s
      else s\<lparr>cacheRoutes := remove1 routeKey (cacheRoutes s)\<rparr>)"

definition isCachedRoute :: "RouteKey \<Rightarrow> 'm state \<Rightarrow> bool" where
  "isCachedRoute routeKey s \<longleftrightarrow> routeKey \<in> set (allCacheRoutes s)"

text \<open>
  Modelled from the spec: \<open>appStore.reloadPage\<close> belongs to the app store, which is not
  among the sources.  Sections 4.5 and 6 of the specification: it reloads the hosting
  view and touches nothing of the route store.  The call is recorded in \<open>reloadLog\<close>.
\<close>

definition reloadPage :: "'m state \<Rightarrow> 'm state" where
  "reloadPage s = s\<lparr>reloadLog := reloadLog s @ [cacheRoutes s]\<rparr>"

definition reCacheRoutesByKey :: "RouteKey \<Rightarrow> 'm state \<Rightarrow> 'm state" where
  "reCacheRoutesByKey routeKey s =
     (if \<not> isCachedRoute routeKey s then s
      else addCacheRoutes routeKey (reloadPage (removeCacheRoutes routeKey s)))"


subsection \<open>Synchronising the router\<close>

definition resetVueRoutes :: "'m state \<Rightarrow> 'm state" where
  "resetVueRoutes s =
     s\<lparr>router := foldl (\<lambda>r fn. removeFn fn r) (router s) (removeRouteFns s),
       removeRouteFns := []\<rparr>"

definition addRemoveRouteFn :: "handle \<Rightarrow> 'm state \<Rightarrow> 'm state" where
  "addRemoveRouteFn fn s = s\<lparr>removeRouteFns := removeRouteFns s @ [fn]\<rparr>"

fun addRoutesToVueRouter :: "vueRoute list \<Rightarrow> 'm state \<Rightarrow> 'm state" where
  "addRoutesToVueRouter [] s = s"
| "addRoutesToVueRouter (route # routes) s =
     (case addRoute route (router s) of
        (fn, r) \<Rightarrow> addRoutesToVueRouter routes (addRemoveRouteFn fn (s\<lparr>router := r\<rparr>)))"

definition handleConstantAndAuthRoutes :: "'m deps \<Rightarrow> 'm state \<Rightarrow> 'm state" where
  "handleConstantAndAuthRoutes d s =
     (let allRoutes = constantRoutes s @ authRoutes s;
          sortRoutes = sortRoutesByOrder allRoutes;
          vueRoutes = getAuthVueRoutes d sortRoutes
      in getCacheRoutes d vueRoutes
           (getGlobalMenus d sortRoutes
              (addRoutesToVueRouter vueRoutes (resetVueRoutes s))))"

text \<open>
  \<open>if (redirect)\<close> is a test for truthiness: a missing path and the empty path both skip
  the update.  \<open>const [rootVueRoute] = getAuthVueRoutes([rootRoute])\<close> yields \<open>undefined\<close>
  on an empty array, and registering \<open>undefined\<close> raises.  The handle returned for the new
  root route is dropped.
\<close>

definition handleUpdateRootRouteRedirect ::
    "'m deps \<Rightarrow> RouteKey \<Rightarrow> 'm state \<Rightarrow> error + 'm state" where
  "handleUpdateRootRouteRedirect d redirectKey s =
     (case getRoutePath d redirectKey of
        None \<Rightarrow> Inr s
      | Some rd \<Rightarrow>
          if rd = [] then Inr s
          else
           (case ROOT_ROUTE d of
              Route n p ord rs _ cs \<Rightarrow>
                (let rootRoute = Route n p ord rs (Some rd) cs;
                     r = removeRoute (name rootRoute) (router s)
                 in case getAuthVueRoutes d [rootRoute] of
                      [] \<Rightarrow> Inl TypeError
                    | rootVueRoute # _ \<Rightarrow> Inr (s\<lparr>router := snd (addRoute rootVueRoute r)\<rparr>))))"

subsection \<open>Initialisation and reset\<close>

definition initConstantRoute :: "'m deps \<Rightarrow> 'm state \<Rightarrow> 'm state" where
  "initConstantRoute d s =
     (if isInitConstantRoute s then s
      else setIsInitConstantRoute True
             (handleConstantAndAuthRoutes d (addConstantRoutes (staticConstantRoutes d) s)))"

definition initStaticAuthRoute :: "'m deps \<Rightarrow> 'm state \<Rightarrow> 'm state" where
  "initStaticAuthRoute d s =
     setIsInitAuthRoute True
       (handleConstantAndAuthRoutes d
          (if isStaticSuper d then addAuthRoutes (staticAuthRoutes d) s
           else (let filteredAuthRoutes = filterAuthRoutesByRoles (staticAuthRoutes d) []
                 in addAuthRoutes filteredAuthRoutes s)))"

text \<open>
  \<open>authStore.resetStore\<close> and \<open>tabStore.initHomeTab\<close> belong to other stores, which are not
  among the sources; the calls are counted.
\<close>

definition authStore_resetStore :: "'m state \<Rightarrow> 'm state" where
  "authStore_resetStore s = s\<lparr>authResetCalls := Suc (authResetCalls s)\<rparr>"

definition initHomeTab :: "'m state \<Rightarrow> 'm state" where
  "initHomeTab s = s\<lparr>initHomeTabCalls := Suc (initHomeTabCalls s)\<rparr>"

definition initDynamicAuthRoute :: "'m deps \<Rightarrow> 'm state \<Rightarrow> error + 'm state" where
  "initDynamicAuthRoute d s =
     (case fetchGetUserRoutes d of
        FetchData routes home \<Rightarrow>
          (case handleUpdateRootRouteRedirect d home
                  (setRouteHome home (handleConstantAndAuthRoutes d (addAuthRoutes routes s))) of
             Inl e \<Rightarrow> Inl e
           | Inr s' \<Rightarrow> Inr (setIsInitAuthRoute True s'))
      | FetchError \<Rightarrow> Inr (authStore_resetStore s))"

definition initAuthRoute :: "'m deps \<Rightarrow> 'm state \<Rightarrow> error + 'm state" where
  "initAuthRoute d s =
     (case (if VITE_AUTH_ROUTE_MODE d = Static then Inr (initStaticAuthRoute d s)
            else initDynamicAuthRoute d s) of
        Inl e \<Rightarrow> Inl e
      | Inr s' \<Rightarrow> Inr (initHomeTab s'))"

text \<open>
  Modelled from the spec: \<open>$reset\<close> is supplied by the store library, which is not among
  the sources.  Section 4.6 of the specification: it clears the cached, menu and
  allow-set state and resets both initialisation flags; the home key returns to its
  configured value.  \<open>constantRoutes\<close>, \<open>authRoutes\<close> and \<open>removeRouteFns\<close> are local to the
  store's setup closure and are not handed out with the store, so \<open>$reset\<close> leaves them.
\<close>

definition store_reset :: "'m deps \<Rightarrow> 'm state \<Rightarrow> 'm state" where
  "store_reset d s =
     s\<lparr>isInitConstantRoute := False, isInitAuthRoute := False,
       routeHome := VITE_ROUTE_HOME d, menus := [], cacheRoutes := [], allCacheRoutes := []\<rparr>"

definition resetStore :: "'m deps \<Rightarrow> 'm state \<Rightarrow> 'm state" where
  "resetStore d s = initConstantRoute d (resetVueRoutes (store_reset d s))"

text \<open>The store as the setup function leaves it, over a router \<open>r\<close>.\<close>

definition newStore :: "'m deps \<Rightarrow> router \<Rightarrow> 'm state" where
  "newStore d r =
     \<lparr>isInitConstantRoute = False, isInitAuthRoute = False, routeHome = VITE_ROUTE_HOME d,
      constantRoutes = [], authRoutes = [], removeRouteFns = [], menus = [],
      cacheRoutes = [], allCacheRoutes = [], router = r, reloadLog = [],
      authResetCalls = 0, initHomeTabCalls = 0\<rparr>"

subsection \<open>Properties of the router and of a store state\<close>

text \<open>A router hands out handles it has not handed out before.\<close>

definition routerOk :: "router \<Rightarrow> bool" where
  "routerOk r \<longleftrightarrow> (\<forall>e \<in> set (entries r). fst e < nextHandle r)"

text \<open>Every live entry was registered by the store, which still holds its handle.\<close>

definition allTracked :: "'m state \<Rightarrow> bool" where
  "allTracked s \<longleftrightarrow> set (map fst (entries (router s))) \<subseteq> set (removeRouteFns s)"

text \<open>The route tree that \<open>handleConstantAndAuthRoutes\<close> registers in state \<open>s\<close>.\<close>

definition vueRoutesOf :: "'m deps \<Rightarrow> 'm state \<Rightarrow> vueRoute list" where
  "vueRoutesOf d s = getAuthVueRoutes d (sortRoutesByOrder (constantRoutes s @ authRoutes s))"

text \<open>
  One synchronisation cycle for the stored lists \<open>c\<close> (constant) and \<open>a\<close> (authorized): the
  lists are stored, then \<open>handleConstantAndAuthRoutes\<close> runs.
\<close>

definition synchronize :: "'m deps \<Rightarrow> route list \<Rightarrow> route list \<Rightarrow> 'm state \<Rightarrow> 'm state" where
  "synchronize d c a s = handleConstantAndAuthRoutes d (s\<lparr>constantRoutes := c, authRoutes := a\<rparr>)"

subsection \<open>An example catalogue\<close>

definition home :: route where
  "home = Route ''home'' ''/home'' 0 [] None []"


definition settings :: route where
  "settings = Route ''settings'' ''/settings'' 1 [] None []"

text \<open>An authorized route that carries the key of the constant route \<open>home\<close>.\<close>

definition homeAuth :: route where
  "homeAuth = Route ''home'' ''/dashboard'' 3 [] None []"

text \<open>An authorized route that requires the role \<open>admin\<close>, and one that requires none.\<close>

definition manage :: route where
  "manage = Route ''manage'' ''/manage'' 4 [''admin''] None []"

definition about :: route where
  "about = Route ''about'' ''/about'' 5 [] None []"

definition rootRoute :: route where
  "rootRoute = Route ''root'' ''/'' 0 [] (Some ''/home'') []"

fun toVueRoute :: "route \<Rightarrow> vueRoute" where
  "toVueRoute (Route n p ord rs rd cs) = VueRoute n p rd (map toVueRoute cs)"

definition exampleDeps :: "authRouteMode \<Rightarrow> bool \<Rightarrow> userRoutes \<Rightarrow> string deps" where
  "exampleDeps mode super fetched =
     \<lparr>VITE_AUTH_ROUTE_MODE = mode, VITE_ROUTE_HOME = ''home'',
      staticConstantRoutes = [home, settings], staticAuthRoutes = [manage, about],
      ROOT_ROUTE = rootRoute, getAuthVueRoutes = map toVueRoute,
      getRoutePath = (\<lambda>k. Some (''/'' @ k)), getGlobalMenusByAuthRoutes = map name,
      getCacheRouteNames = map vueName, isStaticSuper = super,
      fetchGetUserRoutes = fetched\<rparr>"

definition emptyRouter :: router where
  "emptyRouter = \<lparr>entries = [], nextHandle = 0\<rparr>"

text \<open>Static mode with a caller who holds the super flag, and with one who does not.\<close>

definition staticSuper :: "string deps" where
  "staticSuper = exampleDeps Static True FetchError"

definition staticPlain :: "string deps" where
  "staticPlain = exampleDeps Static False FetchError"

text \<open>Dynamic mode with a failing fetch.\<close>

definition dynamicFailing :: "string deps" where
  "dynamicFailing = exampleDeps Dynamic False FetchError"

text \<open>Dynamic mode with a fetch that answers the route \<open>manage\<close> and the home key \<open>home\<close>.\<close>

definition dynamicFetched :: "string deps" where
  "dynamicFetched = exampleDeps Dynamic False (FetchData [manage] ''home'')"

text \<open>The store after \<open>initConstantRoute\<close> and a dynamic \<open>initAuthRoute\<close> whose fetch succeeds.\<close>

definition fetchedIn :: "string state" where
  "fetchedIn =
     (case initAuthRoute dynamicFetched
             (initConstantRoute dynamicFetched (newStore dynamicFetched emptyRouter)) of
        Inr s \<Rightarrow> s
      | Inl e \<Rightarrow> newStore dynamicFetched emptyRouter)"

text \<open>The store after \<open>initConstantRoute\<close> and a static \<open>initAuthRoute\<close> of the super caller.\<close>

definition loggedIn :: "string state" where
  "loggedIn =
     initHomeTab (initStaticAuthRoute staticSuper
       (initConstantRoute staticSuper (newStore staticSuper emptyRouter)))"

text \<open>A store whose cache lists hold three keys.\<close>

definition cached :: "string state" where
  "cached =
     (newStore staticSuper emptyRouter)
       \<lparr>cacheRoutes := [''home'', ''about'', ''manage''],
        allCacheRoutes := [''home'', ''about'', ''manage'']\<rparr>"

section \<open>Storing routes: one entry per name\<close>

lemma remdups_snoc: "remdups (xs @ [a]) = filter (\<lambda>y. y \<noteq> a) (remdups xs) @ [a]"
  by (induction xs) auto

lemma firstOccurrence_Cons:
  "rev (remdups (rev (a # xs))) = a # filter (\<lambda>y. y \<noteq> a) (rev (remdups (rev xs)))"
  by (simp add: remdups_snoc rev_filter)

text \<open>The keys of the map: what was there, then the new names by first occurrence.\<close>

lemma routesMap_keys_aux:
  "map fst (foldl (\<lambda>m route. AList.update (name route) route m) m0 routes) =
     map fst m0 @ filter (\<lambda>k. k \<notin> set (map fst m0)) (rev (remdups (rev (map name routes))))"
proof (induction routes arbitrary: m0)
  case Nil
  then show ?case by simp
next
  case (Cons r routes)
  let ?F = "rev (remdups (rev (map name routes)))"
  have F: "rev (remdups (rev (map name (r # routes)))) = name r # filter (\<lambda>y. y \<noteq> name r) ?F"
    using firstOccurrence_Cons [of "name r" "map name routes"] by simp
  show ?case
  proof (cases "name r \<in> set (map fst m0)")
    case True
    have "filter (\<lambda>k. k \<notin> set (map fst m0)) (filter (\<lambda>y. y \<noteq> name r) ?F)
            = filter (\<lambda>k. k \<notin> set (map fst m0)) ?F"
      unfolding filter_filter using True by (intro filter_cong) force+
    with True show ?thesis
      unfolding F by (simp add: Cons.IH update_keys del: remdups.simps rev.simps)
  next
    case False
    have "filter (\<lambda>k. k \<notin> set (map fst m0)) (filter (\<lambda>y. y \<noteq> name r) ?F)
            = filter (\<lambda>k. k \<notin> set (map fst m0 @ [name r])) ?F"
      unfolding filter_filter by (intro filter_cong) auto
    with False show ?thesis
      unfolding F by (simp add: Cons.IH update_keys del: remdups.simps rev.simps)
  qed
qed

lemma routesMap_keys: "map fst (routesMap routes) = rev (remdups (rev (map name routes)))"
  unfolding routesMap_def using routesMap_keys_aux [of "[]" routes] by simp

lemma routesMap_distinct: "distinct (map fst (routesMap routes))"
  by (simp add: routesMap_keys)

text \<open>Looking a name up finds the route that was set last.\<close>

lemma routesMap_map_of_aux:
  "map_of (foldl (\<lambda>m route. AList.update (name route) route m) m0 routes) =
     map_of m0 ++ map_of (rev (map (\<lambda>route. (name route, route)) routes))"
proof (induction routes arbitrary: m0)
  case Nil
  then show ?case by simp
next
  case (Cons r routes)
  show ?case
    by (auto simp: Cons.IH update_conv' map_add_def fun_eq_iff split: option.splits)
qed

lemma routesMap_map_of:
  "map_of (routesMap routes) = map_of (rev (map (\<lambda>route. (name route, route)) routes))"
  unfolding routesMap_def using routesMap_map_of_aux [of "[]" routes] by simp

lemma map_of_rev_last:
  "map_of (rev (map (\<lambda>route. (name route, route)) routes)) k = Some r \<Longrightarrow>
     \<exists>pre post. routes = pre @ r # post \<and> k = name r \<and> name r \<notin> name ` set post"
proof (induction routes rule: rev_induct)
  case Nil
  then show ?case by simp
next
  case (snoc x xs)
  show ?case
  proof (cases "k = name x")
    case True
    with snoc.prems have "r = x" by simp
    with True have "xs @ [x] = xs @ r # [] \<and> k = name r \<and> name r \<notin> name ` set []" by simp
    then show ?thesis by blast
  next
    case False
    with snoc.prems have "map_of (rev (map (\<lambda>route. (name route, route)) xs)) k = Some r"
      by simp
    from snoc.IH [OF this] obtain pre post where
      "xs = pre @ r # post" "k = name r" "name r \<notin> name ` set post" by blast
    with False have "xs @ [x] = pre @ r # (post @ [x]) \<and> k = name r
        \<and> name r \<notin> name ` set (post @ [x])" by auto
    then show ?thesis by blast
  qed
qed

lemma routesMap_last:
  assumes "(k, r) \<in> set (routesMap routes)"
  shows "\<exists>pre post. routes = pre @ r # post \<and> k = name r \<and> name r \<notin> name ` set post"
proof -
  from assms routesMap_distinct have "map_of (routesMap routes) k = Some r"
    by (simp add: map_of_eq_Some_iff)
  then show ?thesis
    unfolding routesMap_map_of by (rule map_of_rev_last)
qed

lemma routesMap_values_names:
  "map name (mapValues (routesMap routes)) = rev (remdups (rev (map name routes)))"
proof -
  have "\<forall>e \<in> set (routesMap routes). name (snd e) = fst e"
    using routesMap_last by fastforce
  then have "map name (mapValues (routesMap routes)) = map fst (routesMap routes)"
    unfolding mapValues_def by (simp add: comp_def)
  then show ?thesis by (simp add: routesMap_keys)
qed

lemma mapValues_routesMap_last:
  assumes "r \<in> set (mapValues (routesMap routes))"
  shows "\<exists>pre post. routes = pre @ r # post \<and> name r \<notin> name ` set post"
proof -
  from assms obtain k where "(k, r) \<in> set (routesMap routes)"
    unfolding mapValues_def by auto
  from routesMap_last [OF this] show ?thesis by blast
qed

text \<open>
  Claim C10.  For every input list, \<open>addConstantRoutes\<close> and \<open>addAuthRoutes\<close> each store a
  list in which route names are unique; the names stand in the order of their first
  occurrence in the input (\<open>rev \<circ> remdups \<circ> rev\<close> keeps the first occurrence of each name);
  and every stored route is the last route of its name in the input: no route after it
  carries the same name.
\<close>

theorem addRoutes_unique_last_wins:
  "distinct (map name (constantRoutes (addConstantRoutes routes s)))
   \<and> map name (constantRoutes (addConstantRoutes routes s)) = rev (remdups (rev (map name routes)))
   \<and> (\<forall>r \<in> set (constantRoutes (addConstantRoutes routes s)).
        \<exists>pre post. routes = pre @ r # post \<and> name r \<notin> name ` set post)
   \<and> distinct (map name (authRoutes (addAuthRoutes routes s)))
   \<and> map name (authRoutes (addAuthRoutes routes s)) = rev (remdups (rev (map name routes)))
   \<and> (\<forall>r \<in> set (authRoutes (addAuthRoutes routes s)).
        \<exists>pre post. routes = pre @ r # post \<and> name r \<notin> name ` set post)"
  unfolding addConstantRoutes_def addAuthRoutes_def
  using mapValues_routesMap_last [of _ routes]
  by (simp add: routesMap_values_names)

lemma routesMap_example:
  "mapValues (routesMap [home, settings, homeAuth]) = [homeAuth, settings]"
  by (simp add: routesMap_def mapValues_def home_def settings_def homeAuth_def)

text \<open>
  The input \<open>[home, settings, homeAuth]\<close> names \<open>home\<close> twice: the later route is stored, at
  the place of the first.
\<close>

theorem addRoutes_unique_last_wins_witness:
  "constantRoutes (addConstantRoutes [home, settings, homeAuth] cached) = [homeAuth, settings]
   \<and> authRoutes (addAuthRoutes [home, settings, homeAuth] cached) = [homeAuth, settings]
   \<and> [home, settings, homeAuth] = [home, settings] @ homeAuth # []
   \<and> map name [homeAuth, settings] = rev (remdups (rev (map name [home, settings, homeAuth])))"
  using addRoutes_unique_last_wins [of "[home, settings, homeAuth]" cached]
  by (simp add: addConstantRoutes_def addAuthRoutes_def routesMap_example)
     (simp add: home_def settings_def homeAuth_def)

section \<open>Merging and sorting\<close>

lemma name_sortRouteByOrder: "name (sortRouteByOrder r) = name r"
  by (cases r) simp







lemma mset_names_sortRoutesByOrder:
  "mset (map name (sortRoutesByOrder routes)) = mset (map name routes)"
proof -
  have "mset (map name (sortRoutesByOrder routes)) =
          image_mset name (mset (sort_key meta_order (map sortRouteByOrder routes)))"
    unfolding sortRoutesByOrder_def by simp
  also have "\<dots> = image_mset name (mset (map sortRouteByOrder routes))" by simp
  also have "\<dots> = mset (map name routes)"
    by (simp add: multiset.map_comp comp_def name_sortRouteByOrder)
  finally show ?thesis .
qed












lemma count_mset_remdups:
  "count (mset (remdups xs)) k = (if k \<in> set xs then 1 else 0)"
proof -
  have "distinct (remdups xs)" by simp
  then have "count (mset (remdups xs)) k = (if k \<in> set (remdups xs) then 1 else 0)"
    unfolding distinct_count_atmost_1 by blast
  then show ?thesis by simp
qed

text \<open>
  Claim C2, as amended.  The merge step concatenates the stored constant list and the
  stored authorized list and sorts; it removes nothing.  The merged list has as many
  entries as the two lists together and carries every key as often as the two lists do.
  Each list is de-duplicated on its own when it is stored, so after storing \<open>C\<close> and \<open>A\<close> a
  key occurs in the merged list once for \<open>C\<close> if \<open>C\<close> has it and once for \<open>A\<close> if \<open>A\<close> has
  it: a key of both occurs twice.  The menus are built from that list.
\<close>

theorem merge_keeps_both:
  "length (sortRoutesByOrder (constantRoutes s @ authRoutes s)) =
     length (constantRoutes s) + length (authRoutes s)
   \<and> mset (map name (sortRoutesByOrder (constantRoutes s @ authRoutes s))) =
     mset (map name (constantRoutes s)) + mset (map name (authRoutes s))
   \<and> menus (handleConstantAndAuthRoutes d s) =
     getGlobalMenusByAuthRoutes d (sortRoutesByOrder (constantRoutes s @ authRoutes s))
   \<and> count (mset (map name (sortRoutesByOrder
        (constantRoutes (addAuthRoutes A (addConstantRoutes C s)) @
         authRoutes (addAuthRoutes A (addConstantRoutes C s)))))) k =
     (if k \<in> name ` set C then 1 else 0) + (if k \<in> name ` set A then 1 else 0)"
proof -
  have "count (mset (map name (sortRoutesByOrder
        (constantRoutes (addAuthRoutes A (addConstantRoutes C s)) @
         authRoutes (addAuthRoutes A (addConstantRoutes C s)))))) k =
     (if k \<in> name ` set C then 1 else 0) + (if k \<in> name ` set A then 1 else 0)"
    unfolding mset_names_sortRoutesByOrder
    by (simp add: addAuthRoutes_def addConstantRoutes_def routesMap_values_names
        count_mset_remdups)
  moreover have "menus (handleConstantAndAuthRoutes d s) =
     getGlobalMenusByAuthRoutes d (sortRoutesByOrder (constantRoutes s @ authRoutes s))"
    by (simp add: handleConstantAndAuthRoutes_def Let_def getCacheRoutes_def getGlobalMenus_def)
  moreover have "length (sortRoutesByOrder (constantRoutes s @ authRoutes s)) =
     length (constantRoutes s) + length (authRoutes s)"
    by (simp add: sortRoutesByOrder_def)
  moreover have "mset (map name (sortRoutesByOrder (constantRoutes s @ authRoutes s))) =
     mset (map name (constantRoutes s)) + mset (map name (authRoutes s))"
    unfolding mset_names_sortRoutesByOrder by simp
  ultimately show ?thesis by blast
qed

text \<open>
  Claim C2 as stated fails: with the constant route \<open>home\<close> and the authorized route
  \<open>homeAuth\<close> of the same key, the merged list holds both, the constant route first.
\<close>

theorem merge_dedup_counterexample:
  "sortRoutesByOrder
     (constantRoutes (addAuthRoutes [homeAuth] (addConstantRoutes [home] cached)) @
      authRoutes (addAuthRoutes [homeAuth] (addConstantRoutes [home] cached))) = [home, homeAuth]
   \<and> name home = name homeAuth \<and> home \<noteq> homeAuth"
  by (simp add: addAuthRoutes_def addConstantRoutes_def routesMap_def mapValues_def
      sortRoutesByOrder_def home_def homeAuth_def)

section \<open>Re-caching\<close>

lemma insert_set_remove1: "insert k (set (remove1 k xs)) = insert k (set xs)"
  by (induction xs) auto

lemma cacheRoutes_reCacheRoutesByKey:
  "isCachedRoute k s \<Longrightarrow>
     set (cacheRoutes (reCacheRoutesByKey k s)) = insert k (set (cacheRoutes s))"
  using insert_set_remove1 [of k "cacheRoutes s"]
  by (auto simp: reCacheRoutesByKey_def addCacheRoutes_def reloadPage_def
      removeCacheRoutes_def)

lemma reloadLog_reCacheRoutesByKey:
  "isCachedRoute k s \<Longrightarrow>
     reloadLog (reCacheRoutesByKey k s) = reloadLog s @ [remove1 k (cacheRoutes s)]"
  by (simp add: reCacheRoutesByKey_def addCacheRoutes_def reloadPage_def
      removeCacheRoutes_def remove1_idem)

lemma allCacheRoutes_reCacheRoutesByKey:
  "allCacheRoutes (reCacheRoutesByKey k s) = allCacheRoutes s"
  by (simp add: reCacheRoutesByKey_def addCacheRoutes_def reloadPage_def
      removeCacheRoutes_def)

text \<open>
  Claim C6.  For a key \<open>k\<close> of the cache allow-set (\<open>allCacheRoutes\<close>), \<open>reCacheRoutesByKey\<close>
  removes \<open>k\<close> from \<open>cacheRoutes\<close>, reloads the page once, and adds \<open>k\<close> again: the reload log
  grows by exactly one entry, taken with the first occurrence of \<open>k\<close> removed (so without
  \<open>k\<close> when the list has no duplicates); afterwards \<open>k\<close> is in \<open>cacheRoutes\<close>, no other key
  has entered or left it, a \<open>k\<close> that was cached before leaves the set as it was, and the
  allow-set is untouched.
\<close>

theorem reCacheRoutesByKey_cached:
  assumes "isCachedRoute k s"
  shows "k \<in> set (cacheRoutes (reCacheRoutesByKey k s))
    \<and> set (cacheRoutes (reCacheRoutesByKey k s)) = insert k (set (cacheRoutes s))
    \<and> (k \<in> set (cacheRoutes s) \<longrightarrow>
         set (cacheRoutes (reCacheRoutesByKey k s)) = set (cacheRoutes s))
    \<and> isCachedRoute k (reCacheRoutesByKey k s)
    \<and> allCacheRoutes (reCacheRoutesByKey k s) = allCacheRoutes s
    \<and> reloadLog (reCacheRoutesByKey k s) = reloadLog s @ [remove1 k (cacheRoutes s)]
    \<and> length (reloadLog (reCacheRoutesByKey k s)) = Suc (length (reloadLog s))
    \<and> (distinct (cacheRoutes s) \<longrightarrow> k \<notin> set (remove1 k (cacheRoutes s)))"
  using assms cacheRoutes_reCacheRoutesByKey [OF assms] reloadLog_reCacheRoutesByKey [OF assms]
    allCacheRoutes_reCacheRoutesByKey [of k s]
  by (auto simp: isCachedRoute_def)

theorem reCacheRoutesByKey_cached_witness:
  "isCachedRoute ''about'' cached
   \<and> distinct (cacheRoutes cached)
   \<and> cacheRoutes (reCacheRoutesByKey ''about'' cached) = [''home'', ''manage'', ''about'']
   \<and> reloadLog (reCacheRoutesByKey ''about'' cached) = [[''home'', ''manage'']]
   \<and> allCacheRoutes (reCacheRoutesByKey ''about'' cached) = [''home'', ''about'', ''manage'']"
  using reCacheRoutesByKey_cached [of "''about''" cached]
  by (simp add: cached_def newStore_def isCachedRoute_def reCacheRoutesByKey_def
      addCacheRoutes_def reloadPage_def removeCacheRoutes_def)

text \<open>
  Claim C7.  For a key \<open>k\<close> that is not in the cache allow-set, \<open>reCacheRoutesByKey\<close> returns
  the state it was given: no reload is recorded, and \<open>cacheRoutes\<close> and \<open>allCacheRoutes\<close> are
  as before.
\<close>

theorem reCacheRoutesByKey_not_cached:
  "\<not> isCachedRoute k s \<Longrightarrow>
     reCacheRoutesByKey k s = s
     \<and> reloadLog (reCacheRoutesByKey k s) = reloadLog s
     \<and> cacheRoutes (reCacheRoutesByKey k s) = cacheRoutes s
     \<and> allCacheRoutes (reCacheRoutesByKey k s) = allCacheRoutes s"
  by (simp add: reCacheRoutesByKey_def)

theorem reCacheRoutesByKey_not_cached_witness:
  "\<not> isCachedRoute ''reports'' cached
   \<and> reCacheRoutesByKey ''reports'' cached = cached
   \<and> reloadLog (reCacheRoutesByKey ''reports'' cached) = []"
  using reCacheRoutesByKey_not_cached [of "''reports''" cached]
  by (simp add: cached_def newStore_def isCachedRoute_def)













section \<open>Synchronising the router\<close>

text \<open>Calling all stored removal functions retracts exactly the entries they belong to.\<close>

lemma foldl_removeFn:
  "foldl (\<lambda>r fn. removeFn fn r) r hs = r\<lparr>entries := filter (\<lambda>e. fst e \<notin> set hs) (entries r)\<rparr>"
proof (induction hs arbitrary: r)
  case Nil
  then show ?case by simp
next
  case (Cons h hs)
  have f: "filter (\<lambda>e. fst e \<notin> set hs) (filter (\<lambda>e. fst e \<noteq> h) (entries r))
          = filter (\<lambda>e. fst e \<notin> set (h # hs)) (entries r)"
    unfolding filter_filter by (intro filter_cong) auto
  have "foldl (\<lambda>r fn. removeFn fn r) r (h # hs) = foldl (\<lambda>r fn. removeFn fn r) (removeFn h r) hs"
    by simp
  also have "\<dots> = (removeFn h r)\<lparr>entries := filter (\<lambda>e. fst e \<notin> set hs) (entries (removeFn h r))\<rparr>"
    by (rule Cons.IH)
  also have "\<dots> = r\<lparr>entries := filter (\<lambda>e. fst e \<notin> set (h # hs)) (entries r)\<rparr>"
    using f by (simp add: removeFn_def)
  finally show ?case .
qed

lemma resetVueRoutes_eq:
  "resetVueRoutes s =
     s\<lparr>router := (router s)\<lparr>entries := filter (\<lambda>e. fst e \<notin> set (removeRouteFns s)) (entries (router s))\<rparr>,
       removeRouteFns := []\<rparr>"
  by (simp add: resetVueRoutes_def foldl_removeFn)

lemma addRoutesToVueRouter_eq:
  "addRoutesToVueRouter routes s =
     s\<lparr>router := \<lparr>entries = entries (router s) @ enumerate (nextHandle (router s)) routes,
                  nextHandle = nextHandle (router s) + length routes\<rparr>,
       removeRouteFns := removeRouteFns s @ map fst (enumerate (nextHandle (router s)) routes)\<rparr>"
proof (induction routes arbitrary: s)
  case Nil
  then show ?case by simp
next
  case (Cons v routes)
  show ?case
    by (simp add: Cons.IH addRoute_def addRemoveRouteFn_def)
qed

lemma handleConstantAndAuthRoutes_eq:
  "handleConstantAndAuthRoutes d s =
     s\<lparr>router := \<lparr>entries = filter (\<lambda>e. fst e \<notin> set (removeRouteFns s)) (entries (router s)) @
                      enumerate (nextHandle (router s)) (vueRoutesOf d s),
                  nextHandle = nextHandle (router s) + length (vueRoutesOf d s)\<rparr>,
       removeRouteFns := map fst (enumerate (nextHandle (router s)) (vueRoutesOf d s)),
       menus := getGlobalMenusByAuthRoutes d (sortRoutesByOrder (constantRoutes s @ authRoutes s)),
       cacheRoutes := getCacheRouteNames d (vueRoutesOf d s),
       allCacheRoutes := getCacheRouteNames d (vueRoutesOf d s)\<rparr>"
  by (simp add: handleConstantAndAuthRoutes_def Let_def addRoutesToVueRouter_eq resetVueRoutes_eq
      getCacheRoutes_def getGlobalMenus_def vueRoutesOf_def)

lemma fst_enumerate_bounds:
  "e \<in> set (enumerate n xs) \<Longrightarrow> n \<le> fst e \<and> fst e < n + length xs"
  by (cases e) (auto simp: in_set_enumerate_eq)

lemma liveRoutes_handleConstantAndAuthRoutes:
  "liveRoutes (router (handleConstantAndAuthRoutes d s)) =
     map snd (filter (\<lambda>e. fst e \<notin> set (removeRouteFns s)) (entries (router s))) @ vueRoutesOf d s"
  by (simp add: handleConstantAndAuthRoutes_eq liveRoutes_def enumerate_eq_zip)

text \<open>The two properties of a store state are kept by a synchronisation.\<close>

lemma routerOk_handleConstantAndAuthRoutes:
  "routerOk (router s) \<Longrightarrow> routerOk (router (handleConstantAndAuthRoutes d s))"
  by (fastforce simp: handleConstantAndAuthRoutes_eq routerOk_def dest: fst_enumerate_bounds)

lemma allTracked_handleConstantAndAuthRoutes:
  "allTracked s \<Longrightarrow> allTracked (handleConstantAndAuthRoutes d s)"
  by (auto simp: handleConstantAndAuthRoutes_eq allTracked_def)

lemma filter_own_handles: "filter (\<lambda>e. fst e \<notin> set (map fst xs)) xs = []"
  by (simp add: filter_empty_conv)

lemma vueRoutesOf_stored [simp]:
  "vueRoutesOf d (s\<lparr>constantRoutes := c, authRoutes := a\<rparr>) =
     getAuthVueRoutes d (sortRoutesByOrder (c @ a))"
  by (simp add: vueRoutesOf_def)

text \<open>
  After two synchronisations the router holds the entries the store never tracked,
  followed by the second tree: nothing of the first tree is left.  Entries the store
  does not track stay; \<open>handleUpdateRootRouteRedirect\<close> registers one.
\<close>

lemma entries_synchronize_twice:
  assumes "routerOk (router s0)"
  shows "entries (router (synchronize d c' a' (synchronize d c a s0))) =
           filter (\<lambda>e. fst e \<notin> set (removeRouteFns s0)) (entries (router s0)) @
           enumerate (nextHandle (router (synchronize d c a s0)))
             (getAuthVueRoutes d (sortRoutesByOrder (c' @ a')))"
proof -
  let ?s1 = "synchronize d c a s0"
  let ?U = "filter (\<lambda>e. fst e \<notin> set (removeRouteFns s0)) (entries (router s0))"
  let ?N = "enumerate (nextHandle (router s0)) (getAuthVueRoutes d (sortRoutesByOrder (c @ a)))"
  have e1: "entries (router ?s1) = ?U @ ?N" and h1: "removeRouteFns ?s1 = map fst ?N"
    by (simp_all add: synchronize_def handleConstantAndAuthRoutes_eq)
  have "\<forall>e \<in> set ?U. fst e \<notin> set (map fst ?N)"
    using assms by (fastforce simp: routerOk_def dest: fst_enumerate_bounds)
  then have "filter (\<lambda>e. fst e \<notin> set (map fst ?N)) ?U = ?U"
    by (rule filter_True)
  moreover have "filter (\<lambda>e. fst e \<notin> set (map fst ?N)) ?N = []"
    by (rule filter_own_handles)
  ultimately have "filter (\<lambda>e. fst e \<notin> set (removeRouteFns ?s1)) (entries (router ?s1)) = ?U"
    unfolding e1 h1 by simp
  then show ?thesis
    by (simp add: synchronize_def [of d c' a'] handleConstantAndAuthRoutes_eq)
qed

lemma removeRouteFns_synchronize:
  "removeRouteFns (synchronize d c a s) =
     map fst (enumerate (nextHandle (router s)) (getAuthVueRoutes d (sortRoutesByOrder (c @ a))))"
  by (simp add: synchronize_def handleConstantAndAuthRoutes_eq)

lemma nextHandle_synchronize:
  "nextHandle (router (synchronize d c a s)) =
     nextHandle (router s) + length (getAuthVueRoutes d (sortRoutesByOrder (c @ a)))"
  by (simp add: synchronize_def handleConstantAndAuthRoutes_eq)

text \<open>Without any assumption on the starting state.\<close>

lemma entries_synchronize_twice_any:
  "entries (router (synchronize d c' a' (synchronize d c a s0))) =
     filter (\<lambda>e. fst e \<notin> set (removeRouteFns s0) \<and>
                 fst e \<notin> set (removeRouteFns (synchronize d c a s0)))
       (entries (router s0)) @
     enumerate (nextHandle (router (synchronize d c a s0)))
       (getAuthVueRoutes d (sortRoutesByOrder (c' @ a')))"
proof -
  let ?s1 = "synchronize d c a s0"
  let ?U = "filter (\<lambda>e. fst e \<notin> set (removeRouteFns s0)) (entries (router s0))"
  let ?N = "enumerate (nextHandle (router s0)) (getAuthVueRoutes d (sortRoutesByOrder (c @ a)))"
  have e1: "entries (router ?s1) = ?U @ ?N" and h1: "removeRouteFns ?s1 = map fst ?N"
    by (simp_all add: synchronize_def handleConstantAndAuthRoutes_eq)
  have "filter (\<lambda>e. fst e \<notin> set (map fst ?N)) ?N = []"
    by (rule filter_own_handles)
  then have "filter (\<lambda>e. fst e \<notin> set (removeRouteFns ?s1)) (entries (router ?s1)) =
      filter (\<lambda>e. fst e \<notin> set (removeRouteFns ?s1)) ?U"
    unfolding e1 h1 by simp
  also have "\<dots> = filter (\<lambda>e. fst e \<notin> set (removeRouteFns s0) \<and>
                 fst e \<notin> set (removeRouteFns ?s1)) (entries (router s0))"
    unfolding filter_filter by (intro filter_cong) auto
  finally show ?thesis
    by (simp add: synchronize_def [of d c' a'] handleConstantAndAuthRoutes_eq)
qed

lemma liveRoutes_synchronize_twice_any:
  "liveRoutes (router (synchronize d c' a' (synchronize d c a s0))) =
     map snd (filter (\<lambda>e. fst e \<notin> set (removeRouteFns s0) \<and>
                          fst e \<notin> set (removeRouteFns (synchronize d c a s0)))
                (entries (router s0))) @
     getAuthVueRoutes d (sortRoutesByOrder (c' @ a'))"
  unfolding liveRoutes_def entries_synchronize_twice_any by (simp add: enumerate_eq_zip)

lemma first_pass_retracted:
  "set (removeRouteFns (synchronize d c a s0)) \<inter>
     set (map fst (entries (router (synchronize d c' a' (synchronize d c a s0))))) = {}"
proof -
  have "set (removeRouteFns (synchronize d c a s0)) \<inter>
      set (map fst (enumerate (nextHandle (router (synchronize d c a s0)))
             (getAuthVueRoutes d (sortRoutesByOrder (c' @ a'))))) = {}"
    unfolding removeRouteFns_synchronize nextHandle_synchronize by auto
  then show ?thesis
    unfolding entries_synchronize_twice_any by auto
qed

text \<open>
  Claim C1, as amended.  Synchronising for one pair of lists and then for another leaves
  the router with the entries it held at the start under handles the store did not
  hold, followed by exactly the route tree of the second pair, in tree order, each node
  once.  Every handle the store holds is retracted before the new registration pass:
  no handle of the first pass is live afterwards.  When the router hands out fresh
  handles, the entries that stay are those whose handle was not in \<open>removeRouteFns\<close> at the
  start; when the store tracks every live entry, the router holds the second tree and
  nothing else.
\<close>

theorem synchronize_twice_frame:
  "liveRoutes (router (synchronize d c' a' (synchronize d c a s0))) =
     map snd (filter (\<lambda>e. fst e \<notin> set (removeRouteFns s0) \<and>
                          fst e \<notin> set (removeRouteFns (synchronize d c a s0)))
                (entries (router s0))) @
     getAuthVueRoutes d (sortRoutesByOrder (c' @ a'))
   \<and> set (removeRouteFns (synchronize d c a s0)) \<inter>
       set (map fst (entries (router (synchronize d c' a' (synchronize d c a s0))))) = {}
   \<and> removeRouteFns (synchronize d c' a' (synchronize d c a s0)) =
       map fst (enumerate (nextHandle (router (synchronize d c a s0)))
                  (getAuthVueRoutes d (sortRoutesByOrder (c' @ a'))))
   \<and> distinct (removeRouteFns (synchronize d c' a' (synchronize d c a s0)))
   \<and> (routerOk (router s0) \<longrightarrow>
        liveRoutes (router (synchronize d c' a' (synchronize d c a s0))) =
          map snd (filter (\<lambda>e. fst e \<notin> set (removeRouteFns s0)) (entries (router s0))) @
          getAuthVueRoutes d (sortRoutesByOrder (c' @ a')))
   \<and> (allTracked s0 \<longrightarrow>
        liveRoutes (router (synchronize d c' a' (synchronize d c a s0))) =
          getAuthVueRoutes d (sortRoutesByOrder (c' @ a'))
        \<and> removeRouteFns (synchronize d c' a' (synchronize d c a s0)) =
          map fst (entries (router (synchronize d c' a' (synchronize d c a s0)))))"
proof -
  let ?s1 = "synchronize d c a s0"
  let ?s2 = "synchronize d c' a' ?s1"
  let ?T' = "getAuthVueRoutes d (sortRoutesByOrder (c' @ a'))"
  have h2: "removeRouteFns ?s2 = map fst (enumerate (nextHandle (router ?s1)) ?T')"
    by (rule removeRouteFns_synchronize)
  have d: "distinct (removeRouteFns ?s2)"
    unfolding h2 by simp
  have ok: "liveRoutes (router ?s2) =
      map snd (filter (\<lambda>e. fst e \<notin> set (removeRouteFns s0)) (entries (router s0))) @ ?T'"
    if "routerOk (router s0)"
    unfolding liveRoutes_def entries_synchronize_twice [OF that] by (simp add: enumerate_eq_zip)
  have tr: "liveRoutes (router ?s2) = ?T' \<and> removeRouteFns ?s2 = map fst (entries (router ?s2))"
    if "allTracked s0"
  proof -
    from that have "filter (\<lambda>e. fst e \<notin> set (removeRouteFns s0) \<and>
        fst e \<notin> set (removeRouteFns ?s1)) (entries (router s0)) = []"
      by (auto simp: allTracked_def filter_empty_conv)
    then have "entries (router ?s2) = enumerate (nextHandle (router ?s1)) ?T'"
      unfolding entries_synchronize_twice_any by simp
    then show ?thesis
      unfolding liveRoutes_def h2 by (simp add: enumerate_eq_zip)
  qed
  from liveRoutes_synchronize_twice_any [of d c' a' c a s0] first_pass_retracted [of d c a s0 c' a']
    h2 d ok tr
  show ?thesis by blast
qed

lemma getAuthVueRoutes_example:
  "getAuthVueRoutes staticSuper (sortRoutesByOrder ([home] @ [about])) =
     [VueRoute ''home'' ''/home'' None [], VueRoute ''about'' ''/about'' None []]"
  by (simp add: staticSuper_def exampleDeps_def sortRoutesByOrder_def home_def about_def)

lemma getAuthVueRoutes_example_dynamic:
  "getAuthVueRoutes dynamicFetched (sortRoutesByOrder ([home] @ [about])) =
     [VueRoute ''home'' ''/home'' None [], VueRoute ''about'' ''/about'' None []]"
  by (simp add: dynamicFetched_def exampleDeps_def sortRoutesByOrder_def home_def about_def)

text \<open>
  The store after a dynamic initialisation: the root route re-registered by
  \<open>handleUpdateRootRouteRedirect\<close> is live under handle 5, which the store does not hold.
\<close>

lemma router_fetchedIn:
  "router fetchedIn =
     \<lparr>entries = [(2, VueRoute ''home'' ''/home'' None []),
                 (3, VueRoute ''settings'' ''/settings'' None []),
                 (4, VueRoute ''manage'' ''/manage'' None []),
                 (5, VueRoute ''root'' ''/'' (Some ''/home'') [])],
      nextHandle = 6\<rparr>
   \<and> removeRouteFns fetchedIn = [2, 3, 4]"
  by code_simp

lemma initAuthRoute_fetchedIn:
  "initAuthRoute dynamicFetched
     (initConstantRoute dynamicFetched (newStore dynamicFetched emptyRouter)) = Inr fetchedIn"
  by code_simp

lemma untracked_fetchedIn:
  "routerOk (router fetchedIn)
   \<and> map snd (filter (\<lambda>e. fst e \<notin> set (removeRouteFns fetchedIn)) (entries (router fetchedIn))) =
       [VueRoute ''root'' ''/'' (Some ''/home'') []]"
  by (simp add: router_fetchedIn routerOk_def)

text \<open>
  A new store over an empty router, synchronised for \<open>[home, settings]\<close> with \<open>[manage]\<close>
  and then for \<open>[home]\<close> with \<open>[about]\<close>; and the same two passes from the store after a
  dynamic initialisation, where the root route stays.
\<close>

theorem synchronize_twice_frame_witness:
  "allTracked (newStore staticSuper emptyRouter)
   \<and> liveRoutes (router (synchronize staticSuper [home] [about]
        (synchronize staticSuper [home, settings] [manage] (newStore staticSuper emptyRouter)))) =
       [VueRoute ''home'' ''/home'' None [], VueRoute ''about'' ''/about'' None []]
   \<and> routerOk (router fetchedIn)
   \<and> liveRoutes (router (synchronize dynamicFetched [home] [about]
        (synchronize dynamicFetched [home, settings] [manage] fetchedIn))) =
       [VueRoute ''root'' ''/'' (Some ''/home'') [],
        VueRoute ''home'' ''/home'' None [], VueRoute ''about'' ''/about'' None []]"
proof -
  have tr: "allTracked (newStore staticSuper emptyRouter)"
    by (simp add: allTracked_def newStore_def emptyRouter_def)
  from synchronize_twice_frame
    [of staticSuper "[home]" "[about]" "[home, settings]" "[manage]" "newStore staticSuper emptyRouter"] tr
  have 1: "liveRoutes (router (synchronize staticSuper [home] [about]
        (synchronize staticSuper [home, settings] [manage] (newStore staticSuper emptyRouter)))) =
       getAuthVueRoutes staticSuper (sortRoutesByOrder ([home] @ [about]))"
    by blast
  from synchronize_twice_frame
    [of dynamicFetched "[home]" "[about]" "[home, settings]" "[manage]" fetchedIn] untracked_fetchedIn
  have 2: "liveRoutes (router (synchronize dynamicFetched [home] [about]
        (synchronize dynamicFetched [home, settings] [manage] fetchedIn))) =
       map snd (filter (\<lambda>e. fst e \<notin> set (removeRouteFns fetchedIn)) (entries (router fetchedIn))) @
       getAuthVueRoutes dynamicFetched (sortRoutesByOrder ([home] @ [about]))"
    by blast
  from 1 2 tr untracked_fetchedIn show ?thesis
    unfolding getAuthVueRoutes_example getAuthVueRoutes_example_dynamic by simp
qed

text \<open>
  Claim C1 as stated fails.  \<open>fetchedIn\<close> is the store after \<open>initConstantRoute\<close> and a
  dynamic \<open>initAuthRoute\<close> whose fetch succeeds.  Two synchronisations from there, the
  second for \<open>[home]\<close> and \<open>[about]\<close>, leave the root route in the router next to the tree
  of the second pass.
\<close>

theorem synchronize_twice_counterexample:
  "initAuthRoute dynamicFetched
     (initConstantRoute dynamicFetched (newStore dynamicFetched emptyRouter)) = Inr fetchedIn
   \<and> map vueName (liveRoutes (router (synchronize dynamicFetched [home] [about]
        (synchronize dynamicFetched [home, settings] [manage] fetchedIn)))) =
       [''root'', ''home'', ''about'']
   \<and> map vueName (getAuthVueRoutes dynamicFetched (sortRoutesByOrder ([home] @ [about]))) =
       [''home'', ''about'']"
proof -
  have "liveRoutes (router (synchronize dynamicFetched [home] [about]
        (synchronize dynamicFetched [home, settings] [manage] fetchedIn))) =
       map snd (filter (\<lambda>e. fst e \<notin> set (removeRouteFns fetchedIn)) (entries (router fetchedIn))) @
       getAuthVueRoutes dynamicFetched (sortRoutesByOrder ([home] @ [about]))"
    using untracked_fetchedIn
    unfolding liveRoutes_def by (simp add: entries_synchronize_twice enumerate_eq_zip)
  then show ?thesis
    using untracked_fetchedIn initAuthRoute_fetchedIn
    unfolding getAuthVueRoutes_example_dynamic by simp
qed

section \<open>Initialising the authorized routes\<close>

lemma authRoutes_handleConstantAndAuthRoutes [simp]:
  "authRoutes (handleConstantAndAuthRoutes d s) = authRoutes s"
  by (simp add: handleConstantAndAuthRoutes_eq)

text \<open>
  What a static initialisation stores: the whole catalogue for the super caller, and
  otherwise the catalogue filtered by the empty role list, whoever the caller is.
\<close>

lemma authRoutes_initStaticAuthRoute:
  "authRoutes (initStaticAuthRoute d s) =
     mapValues (routesMap (if isStaticSuper d then staticAuthRoutes d
                           else filterAuthRoutesByRoles (staticAuthRoutes d) []))"
  by (simp add: initStaticAuthRoute_def setIsInitAuthRoute_def addAuthRoutes_def)

lemma routesMap_about: "mapValues (routesMap [about]) = [about]"
  by (simp add: routesMap_def mapValues_def)

lemma filterAuthRoutesByRoles_example:
  "filterAuthRoutesByRoles [manage, about] [] = [about]
   \<and> filterAuthRoutesByRoles [manage, about] [''admin''] = [manage, about]"
  by (simp add: filterAuthRoutesByRoles_def manage_def about_def)

text \<open>
  Claim C3 fails on the code.  In static mode the caller \<open>staticPlain\<close> does not hold the
  super flag.  The catalogue \<open>[manage, about]\<close> filtered by the role \<open>admin\<close> is the whole
  catalogue, yet \<open>initAuthRoute\<close> stores \<open>[about]\<close> alone: the filter is called with the
  empty role list, so the route that requires \<open>admin\<close> is dropped for every caller.
\<close>

theorem initStaticAuthRoute_filters_by_no_role:
  "VITE_AUTH_ROUTE_MODE staticPlain = Static
   \<and> isStaticSuper staticPlain = False
   \<and> filterAuthRoutesByRoles (staticAuthRoutes staticPlain) [''admin''] = [manage, about]
   \<and> authRoutes (initStaticAuthRoute staticPlain (newStore staticPlain emptyRouter)) = [about]
   \<and> authRoutes (initStaticAuthRoute staticPlain (newStore staticPlain emptyRouter)) \<noteq>
       filterAuthRoutesByRoles (staticAuthRoutes staticPlain) [''admin'']
   \<and> initAuthRoute staticPlain (newStore staticPlain emptyRouter) =
       Inr (initHomeTab (initStaticAuthRoute staticPlain (newStore staticPlain emptyRouter)))"
proof -
  have d: "VITE_AUTH_ROUTE_MODE staticPlain = Static" "isStaticSuper staticPlain = False"
    "staticAuthRoutes staticPlain = [manage, about]"
    by (simp_all add: staticPlain_def exampleDeps_def)
  have "authRoutes (initStaticAuthRoute staticPlain (newStore staticPlain emptyRouter)) = [about]"
    unfolding authRoutes_initStaticAuthRoute d
    by (simp add: filterAuthRoutesByRoles_example routesMap_about)
  moreover have "initAuthRoute staticPlain (newStore staticPlain emptyRouter) =
       Inr (initHomeTab (initStaticAuthRoute staticPlain (newStore staticPlain emptyRouter)))"
    by (simp add: initAuthRoute_def d)
  ultimately show ?thesis
    using d filterAuthRoutesByRoles_example by (simp add: manage_def about_def)
qed

text \<open>
  Claim C4.  In dynamic mode, when the fetch of the user routes fails, \<open>initAuthRoute\<close>
  returns normally; the state it returns differs from the one it was given only in the
  two call counters: the auth-initialized flag, the stored routes, the menus, both cache
  lists, the home key, the router and the removal handles are as before, and
  \<open>authStore.resetStore\<close> has been called exactly once more.
\<close>

theorem initAuthRoute_fetch_failure:
  assumes "VITE_AUTH_ROUTE_MODE d = Dynamic" and "fetchGetUserRoutes d = FetchError"
  shows "\<exists>s'. initAuthRoute d s = Inr s'
    \<and> s' = s\<lparr>authResetCalls := Suc (authResetCalls s),
              initHomeTabCalls := Suc (initHomeTabCalls s)\<rparr>
    \<and> isInitAuthRoute s' = isInitAuthRoute s
    \<and> isInitConstantRoute s' = isInitConstantRoute s
    \<and> constantRoutes s' = constantRoutes s
    \<and> authRoutes s' = authRoutes s
    \<and> menus s' = menus s
    \<and> cacheRoutes s' = cacheRoutes s
    \<and> allCacheRoutes s' = allCacheRoutes s
    \<and> routeHome s' = routeHome s
    \<and> router s' = router s
    \<and> removeRouteFns s' = removeRouteFns s
    \<and> authResetCalls s' = Suc (authResetCalls s)"
  using assms
  by (simp add: initAuthRoute_def initDynamicAuthRoute_def authStore_resetStore_def
      initHomeTab_def)

theorem initAuthRoute_fetch_failure_witness:
  "VITE_AUTH_ROUTE_MODE dynamicFailing = Dynamic
   \<and> fetchGetUserRoutes dynamicFailing = FetchError
   \<and> initAuthRoute dynamicFailing cached =
       Inr (cached\<lparr>authResetCalls := Suc 0, initHomeTabCalls := Suc 0\<rparr>)
   \<and> isInitAuthRoute cached = False"
proof -
  have m: "VITE_AUTH_ROUTE_MODE dynamicFailing = Dynamic"
    and f: "fetchGetUserRoutes dynamicFailing = FetchError"
    by (simp_all add: dynamicFailing_def exampleDeps_def)
  have c: "authResetCalls cached = 0" "initHomeTabCalls cached = 0" "isInitAuthRoute cached = False"
    by (simp_all add: cached_def newStore_def)
  from initAuthRoute_fetch_failure [OF m f, of cached]
  have "initAuthRoute dynamicFailing cached =
       Inr (cached\<lparr>authResetCalls := Suc (authResetCalls cached),
                   initHomeTabCalls := Suc (initHomeTabCalls cached)\<rparr>)"
    by blast
  with m f c show ?thesis by simp
qed

section \<open>Resetting the store\<close>

lemma resetStore_eq:
  "resetStore d s =
     setIsInitConstantRoute True
       (handleConstantAndAuthRoutes d
          (addConstantRoutes (staticConstantRoutes d) (resetVueRoutes (store_reset d s))))"
  by (simp add: resetStore_def initConstantRoute_def store_reset_def resetVueRoutes_def)

text \<open>
  After \<open>resetStore\<close> the router holds what the store never tracked and then the tree of
  the constant catalogue merged with the authorized routes that were stored before the
  reset: \<open>authRoutes\<close> is not among the cells the reset clears.
\<close>

lemma liveRoutes_resetStore:
  "liveRoutes (router (resetStore d s)) =
     map snd (filter (\<lambda>e. fst e \<notin> set (removeRouteFns s)) (entries (router s))) @
     getAuthVueRoutes d
       (sortRoutesByOrder (mapValues (routesMap (staticConstantRoutes d)) @ authRoutes s))"
  by (simp add: resetStore_eq setIsInitConstantRoute_def liveRoutes_handleConstantAndAuthRoutes
      addConstantRoutes_def resetVueRoutes_eq store_reset_def vueRoutesOf_def)

lemma flags_resetStore:
  "isInitConstantRoute (resetStore d s) \<and> \<not> isInitAuthRoute (resetStore d s)
   \<and> authRoutes (resetStore d s) = authRoutes s"
  by (simp add: resetStore_eq setIsInitConstantRoute_def handleConstantAndAuthRoutes_eq
      addConstantRoutes_def resetVueRoutes_eq store_reset_def)

lemma allTracked_initConstantRoute:
  "allTracked s \<Longrightarrow> allTracked (initConstantRoute d s)"
  using allTracked_handleConstantAndAuthRoutes [of "addConstantRoutes (staticConstantRoutes d) s" d]
  by (simp add: initConstantRoute_def setIsInitConstantRoute_def allTracked_def
      addConstantRoutes_def)

lemma allTracked_initStaticAuthRoute:
  "allTracked s \<Longrightarrow> allTracked (initStaticAuthRoute d s)"
  using allTracked_handleConstantAndAuthRoutes [of "addAuthRoutes rs s" d for rs]
  by (simp add: initStaticAuthRoute_def setIsInitAuthRoute_def allTracked_def
      addAuthRoutes_def)

lemma allTracked_loggedIn: "allTracked loggedIn"
proof -
  have "allTracked (newStore staticSuper emptyRouter)"
    by (simp add: allTracked_def newStore_def emptyRouter_def)
  then have "allTracked (initStaticAuthRoute staticSuper
       (initConstantRoute staticSuper (newStore staticSuper emptyRouter)))"
    by (intro allTracked_initStaticAuthRoute allTracked_initConstantRoute)
  then show ?thesis
    by (simp add: loggedIn_def initHomeTab_def allTracked_def)
qed

lemma routesMap_catalogue:
  "mapValues (routesMap [home, settings]) = [home, settings]
   \<and> mapValues (routesMap [manage, about]) = [manage, about]"
  by (simp add: routesMap_def mapValues_def home_def settings_def manage_def about_def)

lemma authRoutes_loggedIn: "authRoutes loggedIn = [manage, about]"
  by (simp add: loggedIn_def initHomeTab_def authRoutes_initStaticAuthRoute staticSuper_def
      exampleDeps_def routesMap_catalogue)

lemma isInitAuthRoute_loggedIn: "isInitAuthRoute loggedIn"
  by (simp add: loggedIn_def initHomeTab_def initStaticAuthRoute_def setIsInitAuthRoute_def)

text \<open>
  Claim C5 fails on the code.  \<open>loggedIn\<close> is the store after the constant routes and, in
  static mode, the authorized routes of the super caller have been initialised.  After
  \<open>resetStore\<close> the auth-initialized flag is down and \<open>initAuthRoute\<close> has not run again,
  yet the router holds \<open>manage\<close> and \<open>about\<close>, which only the authorized catalogue has,
  next to the constant routes \<open>home\<close> and \<open>settings\<close>.
\<close>

theorem resetStore_registers_stale_auth_routes:
  "initAuthRoute staticSuper (initConstantRoute staticSuper (newStore staticSuper emptyRouter)) =
     Inr loggedIn
   \<and> isInitAuthRoute loggedIn
   \<and> isInitConstantRoute (resetStore staticSuper loggedIn)
   \<and> \<not> isInitAuthRoute (resetStore staticSuper loggedIn)
   \<and> map name (staticConstantRoutes staticSuper) = [''home'', ''settings'']
   \<and> map vueName (liveRoutes (router (resetStore staticSuper loggedIn))) =
       [''home'', ''settings'', ''manage'', ''about'']"
proof -
  have "filter (\<lambda>e. fst e \<notin> set (removeRouteFns loggedIn)) (entries (router loggedIn)) = []"
    using allTracked_loggedIn by (auto simp: allTracked_def filter_empty_conv)
  then have "liveRoutes (router (resetStore staticSuper loggedIn)) =
      getAuthVueRoutes staticSuper
        (sortRoutesByOrder (mapValues (routesMap (staticConstantRoutes staticSuper)) @ [manage, about]))"
    unfolding liveRoutes_resetStore authRoutes_loggedIn by simp
  also have "\<dots> = map toVueRoute (sortRoutesByOrder ([home, settings] @ [manage, about]))"
    by (simp add: staticSuper_def exampleDeps_def routesMap_catalogue)
  finally have "map vueName (liveRoutes (router (resetStore staticSuper loggedIn))) =
       [''home'', ''settings'', ''manage'', ''about'']"
    by (simp add: sortRoutesByOrder_def home_def settings_def manage_def about_def)
  moreover have "initAuthRoute staticSuper
      (initConstantRoute staticSuper (newStore staticSuper emptyRouter)) = Inr loggedIn"
    by (simp add: initAuthRoute_def loggedIn_def staticSuper_def exampleDeps_def)
  moreover have "map name (staticConstantRoutes staticSuper) = [''home'', ''settings'']"
    by (simp add: staticSuper_def exampleDeps_def home_def settings_def)
  ultimately show ?thesis
    using flags_resetStore [of staticSuper loggedIn] isInitAuthRoute_loggedIn by simp
qed

end
